theory Spec2Isabelle
  imports Main "HOL-Library.Word"
begin

unbundle bit_operations_syntax

section \<open>The Debouncer of button\_debounce (single global pull-up flag variant)\<close>

text \<open>
  The header fixes two compile-time macros, both overridable by the user:
  \<^verbatim>\<open>MAX_BUTTON_CHECKS\<close> (default 10, documented as greater than 0 and at most 255) and
  \<^verbatim>\<open>USING_BUTTON_PULLUPS\<close> (default true). They are the two fields of a configuration.
\<close>

type_synonym uint8_t = "8 word"

record config =
  MAX_BUTTON_CHECKS :: nat
  USING_BUTTON_PULLUPS :: bool

definition default_config :: config where
  "default_config = \<lparr>MAX_BUTTON_CHECKS = 10, USING_BUTTON_PULLUPS = True\<rparr>"

text \<open>The documented range of \<^verbatim>\<open>MAX_BUTTON_CHECKS\<close>.\<close>

definition config_ok :: "config \<Rightarrow> bool" where
  "config_ok cfg = (0 < MAX_BUTTON_CHECKS cfg \<and> MAX_BUTTON_CHECKS cfg \<le> 255)"

text \<open>
  The private fields of \<^verbatim>\<open>class Debouncer\<close>. The array \<^verbatim>\<open>state[MAX_BUTTON_CHECKS]\<close> is a list;
  that it has \<^verbatim>\<open>MAX_BUTTON_CHECKS\<close> elements is part of the invariant below.
\<close>

record Debouncer =
  state :: "uint8_t list"
  index :: uint8_t
  debouncedState :: uint8_t
  changed :: uint8_t

text \<open>
  A result \<open>None\<close> stands for a run of the C++ code with no defined result: an array access
  outside \<^verbatim>\<open>state\<close>, or a loop that never ends (the loop counters are \<^verbatim>\<open>uint8_t\<close> and wrap
  around at 256, so \<^verbatim>\<open>i < MAX_BUTTON_CHECKS\<close> never fails when the macro exceeds 255).
\<close>

text \<open>The constructor's loop \<^verbatim>\<open>for(i = 0; i < MAX_BUTTON_CHECKS; i++) state[i] = 0xFF;\<close>\<close>

partial_function (option) ctor_loop :: "nat \<Rightarrow> uint8_t list \<Rightarrow> uint8_t \<Rightarrow> uint8_t list option" where
  "ctor_loop n st i =
     (if unat i < n
      then (if unat i < length st then ctor_loop n (st[unat i := 0xFF]) (i + 1) else None)
      else Some st)"

text \<open>
  \<^verbatim>\<open>Debouncer::Debouncer()\<close>. The argument \<open>mem\<close> is the content of the array before the
  constructor runs (the storage the object is built in).
\<close>

definition Debouncer_ctor :: "config \<Rightarrow> uint8_t list \<Rightarrow> Debouncer option" where
  "Debouncer_ctor cfg mem =
     (case ctor_loop (MAX_BUTTON_CHECKS cfg) mem 0 of
        None \<Rightarrow> None
      | Some st \<Rightarrow> Some \<lparr>state = st, index = 0, debouncedState = 0xFF, changed = 0x00\<rparr>)"

text \<open>
  The loop of \<^verbatim>\<open>ButtonProcess\<close>:
  \<^verbatim>\<open>for(i = 0, debouncedState = 0xFF; i < MAX_BUTTON_CHECKS; i++) debouncedState = debouncedState & state[i];\<close>
  called with \<open>i = 0\<close> and \<open>d = 0xFF\<close>.
\<close>

partial_function (option) debounce_loop :: "nat \<Rightarrow> uint8_t list \<Rightarrow> uint8_t \<Rightarrow> uint8_t \<Rightarrow> uint8_t option" where
  "debounce_loop n st i d =
     (if unat i < n
      then (if unat i < length st then debounce_loop n st (i + 1) (d AND st ! unat i) else None)
      else Some d)"

text \<open>
  \<^verbatim>\<open>Debouncer::ButtonProcess(uint8_t portStatus)\<close>, in the order of the source: save the last
  debounced state, complement the sample when pull-ups are not used, store it at
  \<^verbatim>\<open>state[index]\<close>, run the AND loop, advance \<^verbatim>\<open>index\<close> (a \<^verbatim>\<open>uint8_t\<close> increment, then the reset to 0
  when it reaches \<^verbatim>\<open>MAX_BUTTON_CHECKS\<close>), and set \<^verbatim>\<open>changed\<close>.
\<close>

definition ButtonProcess :: "config \<Rightarrow> Debouncer \<Rightarrow> uint8_t \<Rightarrow> Debouncer option" where
  "ButtonProcess cfg s portStatus =
     (let lastDebouncedState = debouncedState s;
          portStatus = (if USING_BUTTON_PULLUPS cfg = False then NOT portStatus else portStatus)
      in if unat (index s) < length (state s)
         then (let st = (state s)[unat (index s) := portStatus]
               in case debounce_loop (MAX_BUTTON_CHECKS cfg) st 0 0xFF of
                    None \<Rightarrow> None
                  | Some d \<Rightarrow>
                      (let idx = index s + 1;
                           idx = (if unat idx \<ge> MAX_BUTTON_CHECKS cfg then 0 else idx)
                       in Some \<lparr>state = st, index = idx, debouncedState = d,
                                changed = d XOR lastDebouncedState\<rparr>))
         else None)"

text \<open>
  The three accessors are non-const member functions, so each returns its answer together
  with the object it leaves behind. The operands of \<^verbatim>\<open>&\<close> and \<^verbatim>\<open>~\<close> are promoted to \<^verbatim>\<open>int\<close> in
  C++; since \<^verbatim>\<open>changed\<close> and the pin mask are below 256, the test against zero is the test of
  the 8-bit value, and the \<^verbatim>\<open>uint8_t\<close> return of \<^verbatim>\<open>~debouncedState\<close> is the 8-bit complement.
\<close>

definition ButtonPressed :: "Debouncer \<Rightarrow> uint8_t \<Rightarrow> bool \<times> Debouncer" where
  "ButtonPressed s GPIOButtonPin =
     (if (changed s AND (NOT (debouncedState s))) AND GPIOButtonPin \<noteq> 0
      then (True, s) else (False, s))"

definition ButtonReleased :: "Debouncer \<Rightarrow> uint8_t \<Rightarrow> bool \<times> Debouncer" where
  "ButtonReleased s GPIOButtonPin =
     (if (changed s AND debouncedState s) AND GPIOButtonPin \<noteq> 0
      then (True, s) else (False, s))"

definition ButtonDebouncedStateGet :: "config \<Rightarrow> Debouncer \<Rightarrow> uint8_t \<times> Debouncer" where
  "ButtonDebouncedStateGet cfg s =
     (if USING_BUTTON_PULLUPS cfg = True then (debouncedState s, s)
      else (NOT (debouncedState s), s))"


section \<open>Callers and observations\<close>

text \<open>
  The application calls \<^verbatim>\<open>ButtonProcess\<close> once per tick with the sample read from the port.
  \<open>feed\<close> is that loop over a list of samples; \<open>run\<close> constructs the object first.
\<close>

fun feed :: "config \<Rightarrow> Debouncer \<Rightarrow> uint8_t list \<Rightarrow> Debouncer option" where
  "feed cfg s [] = Some s"
| "feed cfg s (p # ps) =
     (case ButtonProcess cfg s p of None \<Rightarrow> None | Some s' \<Rightarrow> feed cfg s' ps)"

definition run :: "config \<Rightarrow> uint8_t list \<Rightarrow> uint8_t list \<Rightarrow> Debouncer option" where
  "run cfg mem samples =
     (case Debouncer_ctor cfg mem of None \<Rightarrow> None | Some s \<Rightarrow> feed cfg s samples)"

text \<open>What the accessors answer after the object was constructed and fed the samples.\<close>

definition pressed_after :: "config \<Rightarrow> uint8_t list \<Rightarrow> uint8_t list \<Rightarrow> uint8_t \<Rightarrow> bool option" where
  "pressed_after cfg mem samples pin =
     (case run cfg mem samples of None \<Rightarrow> None | Some s \<Rightarrow> Some (fst (ButtonPressed s pin)))"

definition released_after :: "config \<Rightarrow> uint8_t list \<Rightarrow> uint8_t list \<Rightarrow> uint8_t \<Rightarrow> bool option" where
  "released_after cfg mem samples pin =
     (case run cfg mem samples of None \<Rightarrow> None | Some s \<Rightarrow> Some (fst (ButtonReleased s pin)))"

definition state_after :: "config \<Rightarrow> uint8_t list \<Rightarrow> uint8_t list \<Rightarrow> uint8_t option" where
  "state_after cfg mem samples =
     (case run cfg mem samples of None \<Rightarrow> None
      | Some s \<Rightarrow> Some (fst (ButtonDebouncedStateGet cfg s)))"

text \<open>
  The raw electrical level of a pressed button: low on a pin with a pull-up, high on a pin
  with a pull-down. \<^verbatim>\<open>ButtonProcess\<close> complements the sample when pull-ups are not used and
  \<^verbatim>\<open>ButtonDebouncedStateGet\<close> complements it back, so the value the getter returns is read
  with the same rule as the samples.
\<close>

definition raw_asserted :: "config \<Rightarrow> uint8_t \<Rightarrow> nat \<Rightarrow> bool" where
  "raw_asserted cfg sample b =
     (if USING_BUTTON_PULLUPS cfg then \<not> bit sample b else bit sample b)"

text \<open>Whether pin \<open>b\<close> reads pressed in the value the getter returns after the samples.\<close>

definition pin_pressed_after :: "config \<Rightarrow> uint8_t list \<Rightarrow> uint8_t list \<Rightarrow> nat \<Rightarrow> bool option" where
  "pin_pressed_after cfg mem samples b =
     (case state_after cfg mem samples of None \<Rightarrow> None
      | Some v \<Rightarrow> Some (raw_asserted cfg v b))"

text \<open>A bouncing pin: asserted, deasserted, asserted, ... (\<open>want\<close> is the level of the head).\<close>

fun alternating :: "config \<Rightarrow> nat \<Rightarrow> bool \<Rightarrow> uint8_t list \<Rightarrow> bool" where
  "alternating cfg b want [] = True"
| "alternating cfg b want (x # xs) =
     (raw_asserted cfg x b = want \<and> alternating cfg b (\<not> want) xs)"

section \<open>Invariant and the description of one step\<close>

definition Debouncer_inv :: "config \<Rightarrow> Debouncer \<Rightarrow> bool" where
  "Debouncer_inv cfg s =
     (length (state s) = MAX_BUTTON_CHECKS cfg \<and> unat (index s) < MAX_BUTTON_CHECKS cfg)"

definition and_all :: "uint8_t list \<Rightarrow> uint8_t" where
  "and_all xs = fold (\<lambda>x d. d AND x) xs 0xFF"

definition normalize :: "config \<Rightarrow> uint8_t \<Rightarrow> uint8_t" where
  "normalize cfg portStatus = (if USING_BUTTON_PULLUPS cfg then portStatus else NOT portStatus)"

text \<open>
  One call of Process as the specification words it: normalise the sample, store it at the
  write index, advance the write index modulo N, take the AND of all N entries, and set
  changed to the XOR of the new and the previous debounced state.
\<close>

definition Process_spec :: "config \<Rightarrow> Debouncer \<Rightarrow> uint8_t \<Rightarrow> Debouncer" where
  "Process_spec cfg s rawSample =
     (let history = (state s)[unat (index s) := normalize cfg rawSample];
          writeIndex = (unat (index s) + 1) mod MAX_BUTTON_CHECKS cfg;
          newState = and_all history
      in \<lparr>state = history, index = of_nat writeIndex, debouncedState = newState,
          changed = newState XOR debouncedState s\<rparr>)"

text \<open>
  The window after the samples \<open>xs\<close>, oldest entry first: the last N of the N initial
  entries 0xFF followed by the normalised samples.
\<close>

definition window :: "config \<Rightarrow> uint8_t list \<Rightarrow> uint8_t list" where
  "window cfg xs =
     drop (length xs) (replicate (MAX_BUTTON_CHECKS cfg) 0xFF @ map (normalize cfg) xs)"

text \<open>Pin \<open>b\<close> is at its idle level (1 after normalisation) in every entry of the window.\<close>

definition idle_bit :: "config \<Rightarrow> uint8_t list \<Rightarrow> nat \<Rightarrow> bool" where
  "idle_bit cfg xs b = (\<forall>x\<in>set (window cfg xs). bit x b)"

text \<open>
  A call of one of the three accessors, its answer, and the object after a list of such
  calls.
\<close>

datatype query = QPressed uint8_t | QReleased uint8_t | QStateGet

datatype answer = ABool bool | AMask uint8_t

fun ask :: "config \<Rightarrow> Debouncer \<Rightarrow> query \<Rightarrow> answer \<times> Debouncer" where
  "ask cfg s (QPressed pin) = (ABool (fst (ButtonPressed s pin)), snd (ButtonPressed s pin))"
| "ask cfg s (QReleased pin) = (ABool (fst (ButtonReleased s pin)), snd (ButtonReleased s pin))"
| "ask cfg s QStateGet =
     (AMask (fst (ButtonDebouncedStateGet cfg s)), snd (ButtonDebouncedStateGet cfg s))"

fun ask_all :: "config \<Rightarrow> Debouncer \<Rightarrow> query list \<Rightarrow> Debouncer" where
  "ask_all cfg s [] = s"
| "ask_all cfg s (q # qs) = ask_all cfg (snd (ask cfg s q)) qs"

section \<open>The two loops\<close>

lemma debounce_loop_fold:
  "n \<le> 255 \<Longrightarrow> length st = n \<Longrightarrow> unat i \<le> n \<Longrightarrow>
   debounce_loop n st i d = Some (fold (\<lambda>x d. d AND x) (drop (unat i) st) d)"
proof (induction "n - unat i" arbitrary: i d)
  case 0
  then have "unat i = n" by simp
  then show ?case using 0 by (subst debounce_loop.simps) simp
next
  case (Suc k)
  then have lt: "unat i < n" by simp
  then have ui: "unat (i + 1) = unat i + 1" using Suc.prems(1)
    by (simp add: unat_word_ariths)
  have "debounce_loop n st (i + 1) (d AND st ! unat i)
        = Some (fold (\<lambda>x d. d AND x) (drop (unat (i + 1)) st) (d AND st ! unat i))"
    using Suc lt ui by (intro Suc.hyps(1)) simp_all
  moreover have "drop (unat i) st = st ! unat i # drop (unat i + 1) st"
    using lt Suc.prems(2) by (simp add: Cons_nth_drop_Suc)
  ultimately show ?case using lt Suc.prems(2) ui
    by (subst debounce_loop.simps) simp
qed

lemma ctor_loop_fill:
  "n \<le> 255 \<Longrightarrow> length st = n \<Longrightarrow> unat i \<le> n \<Longrightarrow>
   ctor_loop n st i = Some (take (unat i) st @ replicate (n - unat i) 0xFF)"
proof (induction "n - unat i" arbitrary: i st)
  case 0
  then have "unat i = n" by simp
  then show ?case using 0 by (subst ctor_loop.simps) simp
next
  case (Suc k)
  then have lt: "unat i < n" by simp
  then have ui: "unat (i + 1) = unat i + 1" using Suc.prems(1)
    by (simp add: unat_word_ariths)
  have "ctor_loop n (st[unat i := 0xFF]) (i + 1)
        = Some (take (unat (i + 1)) (st[unat i := 0xFF]) @ replicate (n - unat (i + 1)) 0xFF)"
    using Suc lt ui by (intro Suc.hyps(1)) simp_all
  moreover have "take (unat i + 1) (st[unat i := 0xFF]) = take (unat i) st @ [0xFF]"
    using lt Suc.prems(2) by (simp add: take_Suc_conv_app_nth)
  moreover have "replicate (n - unat i) (0xFF::uint8_t) = 0xFF # replicate (n - (unat i + 1)) 0xFF"
    using lt by (metis Suc_diff_Suc Suc_eq_plus1 replicate_Suc)
  ultimately show ?case using lt Suc.prems(2) ui
    by (subst ctor_loop.simps) simp
qed

section \<open>Bits of the AND over the window\<close>

lemma bit_fold_and:
  "bit (fold (\<lambda>x d. d AND x) xs (d::uint8_t)) b \<longleftrightarrow> bit d b \<and> (\<forall>x\<in>set xs. bit x b)"
  by (induction xs arbitrary: d) (auto simp: bit_and_iff)

lemma bit_0xFF: "bit (0xFF::uint8_t) b \<longleftrightarrow> b < 8"
proof -
  have "(0xFF::uint8_t) = - 1" by simp
  then show ?thesis by (simp only: bit_minus_1_iff possible_bit_word) simp
qed

lemma bit_and_all: "bit (and_all xs) b \<longleftrightarrow> b < 8 \<and> (\<forall>x\<in>set xs. bit x b)"
  unfolding and_all_def by (simp only: bit_fold_and bit_0xFF)

lemma and_all_cong_set: "set xs = set ys \<Longrightarrow> and_all xs = and_all ys"
  by (rule bit_eqI) (simp add: bit_and_all)

lemma rotate_update_step:
  assumes "i < length st"
  shows "rotate (Suc i mod length st) (st[i := v]) = tl (rotate i st) @ [v]"
proof -
  let ?n = "length st"
  have r: "rotate i st = drop i st @ take i st"
    using assms by (simp add: rotate_drop_take)
  have d: "drop i st = st ! i # drop (Suc i) st"
    using assms by (simp add: Cons_nth_drop_Suc)
  show ?thesis
  proof (cases "Suc i = ?n")
    case True
    then have "rotate (Suc i mod ?n) (st[i := v]) = st[i := v]" by simp
    also have "\<dots> = take i st @ [v]"
      using True assms by (metis d drop_all le_refl upd_conv_take_nth_drop append_Nil2 append.assoc append_Cons)
    finally show ?thesis using r d True by simp
  next
    case False
    then have lt: "Suc i < ?n" using assms by simp
    then have "rotate (Suc i mod ?n) (st[i := v]) = drop (Suc i) (st[i := v]) @ take (Suc i) (st[i := v])"
      by (simp add: rotate_drop_take)
    also have "\<dots> = drop (Suc i) st @ take i st @ [v]"
      using assms by (simp add: take_Suc_conv_app_nth)
    finally show ?thesis using r d by simp
  qed
qed

section \<open>One step, the invariant and the trace from the constructed state\<close>

lemma ctor_Some:
  assumes "config_ok cfg" "length mem = MAX_BUTTON_CHECKS cfg"
  shows "Debouncer_ctor cfg mem =
         Some \<lparr>state = replicate (MAX_BUTTON_CHECKS cfg) 0xFF, index = 0,
               debouncedState = 0xFF, changed = 0\<rparr>"
  using assms ctor_loop_fill [of "MAX_BUTTON_CHECKS cfg" mem 0]
  by (simp add: Debouncer_ctor_def config_ok_def)

lemma index_advance:
  assumes "n \<le> 255" "unat (i::uint8_t) < n"
  shows "(if unat (i + 1) \<ge> n then 0 else i + 1) = of_nat ((unat i + 1) mod n)"
    and "unat (if unat (i + 1) \<ge> n then 0 else i + 1) = (unat i + 1) mod n"
proof -
  have ui: "unat (i + 1) = unat i + 1" using assms by (simp add: unat_word_ariths)
  show "(if unat (i + 1) \<ge> n then 0 else i + 1) = of_nat ((unat i + 1) mod n)"
  proof (cases "unat i + 1 = n")
    case True then show ?thesis using ui by simp
  next
    case False
    then have "unat i + 1 < n" using assms by simp
    then show ?thesis using ui by (simp)
  qed
  show "unat (if unat (i + 1) \<ge> n then 0 else i + 1) = (unat i + 1) mod n"
  proof (cases "unat i + 1 = n")
    case True then show ?thesis using ui by simp
  next
    case False
    then have "unat i + 1 < n" using assms by simp
    then show ?thesis using ui by (simp)
  qed
qed

lemma ButtonProcess_step:
  assumes "config_ok cfg" "Debouncer_inv cfg s"
  shows "ButtonProcess cfg s p = Some (Process_spec cfg s p)"
proof -
  let ?n = "MAX_BUTTON_CHECKS cfg"
  let ?st = "(state s)[unat (index s) := normalize cfg p]"
  have n: "?n \<le> 255" and len: "length (state s) = ?n" and idx: "unat (index s) < ?n"
    using assms by (simp_all add: config_ok_def Debouncer_inv_def)
  have loop: "debounce_loop ?n ?st 0 0xFF = Some (and_all ?st)"
    using debounce_loop_fold [of ?n ?st 0 "0xFF"] n len by (simp add: and_all_def)
  have norm: "(if USING_BUTTON_PULLUPS cfg = False then NOT p else p) = normalize cfg p"
    by (simp add: normalize_def)
  show ?thesis
    unfolding ButtonProcess_def Process_spec_def Let_def norm
    using loop len idx index_advance(1) [OF n idx] by simp
qed

lemma Process_spec_inv:
  assumes "config_ok cfg" "Debouncer_inv cfg s"
  shows "Debouncer_inv cfg (Process_spec cfg s p)"
proof -
  let ?n = "MAX_BUTTON_CHECKS cfg"
  have n: "0 < ?n" "?n \<le> 255" using assms by (simp_all add: config_ok_def)
  have "(unat (index s) + 1) mod ?n < ?n" using n by simp
  moreover have "(unat (index s) + 1) mod ?n < 256" using n calculation by linarith
  ultimately have "unat (of_nat ((unat (index s) + 1) mod ?n) :: uint8_t) < ?n"
    by (simp add: unat_of_nat)
  then show ?thesis using assms by (simp add: Debouncer_inv_def Process_spec_def Let_def)
qed

lemma feed_snoc:
  "feed cfg s (xs @ [x]) =
     (case feed cfg s xs of None \<Rightarrow> None | Some s' \<Rightarrow> ButtonProcess cfg s' x)"
  by (induction xs arbitrary: s) (auto split: option.splits)

lemma window_Nil: "window cfg [] = replicate (MAX_BUTTON_CHECKS cfg) 0xFF"
  by (simp add: window_def)

lemma window_snoc:
  "0 < MAX_BUTTON_CHECKS cfg \<Longrightarrow> window cfg (xs @ [x]) = tl (window cfg xs) @ [normalize cfg x]"
proof -
  let ?L = "replicate (MAX_BUTTON_CHECKS cfg) 0xFF @ map (normalize cfg) xs"
  assume "0 < MAX_BUTTON_CHECKS cfg"
  then have le: "Suc (length xs) \<le> length ?L" by simp
  have "window cfg (xs @ [x]) = drop (Suc (length xs)) (?L @ [normalize cfg x])"
    by (simp add: window_def)
  also have "\<dots> = drop (Suc (length xs)) ?L @ [normalize cfg x]"
    using le by (simp only: drop_append) simp
  also have "drop (Suc (length xs)) ?L = tl (drop (length xs) ?L)"
    by (simp only: drop_Suc tl_drop)
  finally show ?thesis by (simp only: window_def)
qed

lemma run_trace:
  assumes "config_ok cfg" "length mem = MAX_BUTTON_CHECKS cfg"
  shows "\<exists>s. run cfg mem xs = Some s \<and> Debouncer_inv cfg s
           \<and> rotate (unat (index s)) (state s) = window cfg xs
           \<and> debouncedState s = and_all (window cfg xs)
           \<and> changed s = (if xs = [] then 0
                          else and_all (window cfg xs) XOR and_all (window cfg (butlast xs)))"
proof (induction xs rule: rev_induct)
  case Nil
  have "and_all (replicate (MAX_BUTTON_CHECKS cfg) 0xFF) = 0xFF"
    using assms(1) by (intro bit_eqI) (auto simp: bit_and_all bit_0xFF config_ok_def)
  then show ?case using assms ctor_Some [OF assms]
    by (simp add: run_def Debouncer_inv_def window_Nil config_ok_def)
next
  case (snoc x xs)
  then obtain s where s: "run cfg mem xs = Some s" "Debouncer_inv cfg s"
     "rotate (unat (index s)) (state s) = window cfg xs"
     "debouncedState s = and_all (window cfg xs)" by blast
  let ?n = "MAX_BUTTON_CHECKS cfg"
  let ?s' = "Process_spec cfg s x"
  have n: "0 < ?n" "?n \<le> 255" using assms by (simp_all add: config_ok_def)
  have len: "length (state s) = ?n" and idx: "unat (index s) < ?n"
    using s(2) by (simp_all add: Debouncer_inv_def)
  have r: "run cfg mem (xs @ [x]) = Some ?s'"
    using s(1) ButtonProcess_step [OF assms(1) s(2)] ctor_Some [OF assms]
    by (simp add: run_def feed_snoc split: option.splits)
  have inv: "Debouncer_inv cfg ?s'" by (rule Process_spec_inv [OF assms(1) s(2)])
  have ix: "unat (index ?s') = Suc (unat (index s)) mod length (state s)"
    using index_advance [OF n(2) idx] len by (simp add: Process_spec_def Let_def)
  have w: "rotate (unat (index ?s')) (state ?s') = window cfg (xs @ [x])"
    unfolding ix using rotate_update_step [of "unat (index s)" "state s" "normalize cfg x"] idx len s(3) n
    by (simp add: Process_spec_def Let_def window_snoc)
  have ds: "debouncedState ?s' = and_all (state ?s')"
    by (simp add: Process_spec_def Let_def)
  have "and_all (state ?s') = and_all (rotate (unat (index ?s')) (state ?s'))"
    by (rule and_all_cong_set) (simp only: set_rotate)
  then have d: "debouncedState ?s' = and_all (window cfg (xs @ [x]))"
    by (simp only: ds w)
  have c: "changed ?s' = and_all (window cfg (xs @ [x])) XOR and_all (window cfg xs)"
    using d s(4) by (simp add: Process_spec_def Let_def)
  show ?case using r inv w d c by simp
qed

section \<open>Observations through the accessors\<close>

lemma mask_test: "(w AND 2 ^ b \<noteq> 0) = (b < 8 \<and> bit (w::uint8_t) b)"
  by (auto simp: and_exp_eq_0_iff_not_bit dest: bit_imp_le_length)

lemma bit_normalize:
  "b < 8 \<Longrightarrow> bit (normalize cfg x) b \<longleftrightarrow> \<not> raw_asserted cfg x b"
  by (simp add: normalize_def raw_asserted_def bit_not_iff)

lemma bit_and_all_window:
  "b < 8 \<Longrightarrow> bit (and_all (window cfg xs)) b \<longleftrightarrow> idle_bit cfg xs b"
  by (simp add: bit_and_all idle_bit_def)

lemma idle_bit_Nil: "b < 8 \<Longrightarrow> idle_bit cfg [] b"
  unfolding idle_bit_def window_Nil using bit_0xFF by auto

text \<open>The three observations in terms of the window.\<close>

lemma state_after_value:
  assumes "config_ok cfg" "length mem = MAX_BUTTON_CHECKS cfg"
  shows "state_after cfg mem xs =
         Some (if USING_BUTTON_PULLUPS cfg then and_all (window cfg xs)
               else NOT (and_all (window cfg xs)))"
proof -
  from run_trace [OF assms(1,2), of xs] obtain s where
    s: "run cfg mem xs = Some s" "debouncedState s = and_all (window cfg xs)" by blast
  then show ?thesis by (simp add: state_after_def ButtonDebouncedStateGet_def)
qed

lemma pin_pressed_after_bit:
  assumes "config_ok cfg" "length mem = MAX_BUTTON_CHECKS cfg" "b < 8"
  shows "pin_pressed_after cfg mem xs b = Some (\<not> idle_bit cfg xs b)"
  using assms(3) bit_and_all_window [OF assms(3), of cfg xs]
  by (simp add: pin_pressed_after_def state_after_value [OF assms(1,2)] raw_asserted_def
                bit_not_iff)

lemma pressed_after_bit:
  assumes "config_ok cfg" "length mem = MAX_BUTTON_CHECKS cfg" "b < 8"
  shows "pressed_after cfg mem xs (2 ^ b) =
         Some (xs \<noteq> [] \<and> idle_bit cfg (butlast xs) b \<and> \<not> idle_bit cfg xs b)"
proof -
  from run_trace [OF assms(1,2), of xs] obtain s where
    s: "run cfg mem xs = Some s" "debouncedState s = and_all (window cfg xs)"
       "changed s = (if xs = [] then 0
                     else and_all (window cfg xs) XOR and_all (window cfg (butlast xs)))" by blast
  have "((changed s AND NOT (debouncedState s)) AND 2 ^ b \<noteq> 0)
        = (xs \<noteq> [] \<and> idle_bit cfg (butlast xs) b \<and> \<not> idle_bit cfg xs b)"
    unfolding mask_test s(2,3) using assms(3)
    by (auto simp: bit_and_iff bit_xor_iff bit_not_iff bit_and_all_window)
  then show ?thesis using s(1)
    by (simp add: pressed_after_def ButtonPressed_def)
qed

lemma released_after_bit:
  assumes "config_ok cfg" "length mem = MAX_BUTTON_CHECKS cfg" "b < 8"
  shows "released_after cfg mem xs (2 ^ b) =
         Some (xs \<noteq> [] \<and> \<not> idle_bit cfg (butlast xs) b \<and> idle_bit cfg xs b)"
proof -
  from run_trace [OF assms(1,2), of xs] obtain s where
    s: "run cfg mem xs = Some s" "debouncedState s = and_all (window cfg xs)"
       "changed s = (if xs = [] then 0
                     else and_all (window cfg xs) XOR and_all (window cfg (butlast xs)))" by blast
  have "((changed s AND debouncedState s) AND 2 ^ b \<noteq> 0)
        = (xs \<noteq> [] \<and> \<not> idle_bit cfg (butlast xs) b \<and> idle_bit cfg xs b)"
    unfolding mask_test s(2,3) using assms(3)
    by (auto simp: bit_and_iff bit_xor_iff bit_and_all_window)
  then show ?thesis using s(1)
    by (simp add: released_after_def ButtonReleased_def)
qed

text \<open>Which samples are in the window.\<close>

lemma last_in_window:
  assumes "xs \<noteq> []" "length ys < MAX_BUTTON_CHECKS cfg"
  shows "normalize cfg (last xs) \<in> set (window cfg (xs @ ys))"
proof -
  let ?P = "replicate (MAX_BUTTON_CHECKS cfg) 0xFF @ map (normalize cfg) (butlast xs)"
  let ?Q = "normalize cfg (last xs) # map (normalize cfg) ys"
  have xs: "xs = butlast xs @ [last xs]" using assms(1) by simp
  have "map (normalize cfg) xs = map (normalize cfg) (butlast xs) @ [normalize cfg (last xs)]"
    by (subst xs) (simp only: map_append list.map)
  then have "window cfg (xs @ ys) = drop (length xs + length ys) (?P @ ?Q)"
    by (simp add: window_def)
  moreover have "length xs + length ys \<le> length ?P" using assms by (cases xs) auto
  ultimately have "window cfg (xs @ ys) = drop (length xs + length ys) ?P @ ?Q"
    by (simp only: drop_append) simp
  then show ?thesis by simp
qed

lemma hd_in_window:
  assumes "xs \<noteq> []" "length xs \<le> MAX_BUTTON_CHECKS cfg"
  shows "normalize cfg (hd xs) \<in> set (window cfg xs)"
proof -
  have "window cfg xs = drop (length xs) (replicate (MAX_BUTTON_CHECKS cfg) 0xFF)
                         @ map (normalize cfg) xs"
    using assms(2) by (simp add: window_def)
  then show ?thesis using assms(1) by (cases xs) auto
qed

lemma window_full:
  assumes "MAX_BUTTON_CHECKS cfg \<le> length ys"
  shows "set (window cfg (xs @ ys)) \<subseteq> set (map (normalize cfg) ys)"
proof -
  let ?P = "replicate (MAX_BUTTON_CHECKS cfg) 0xFF @ map (normalize cfg) xs"
  have "window cfg (xs @ ys) = drop (length xs + length ys) (?P @ map (normalize cfg) ys)"
    by (simp add: window_def)
  also have "\<dots> = drop (length xs + length ys - length ?P) (map (normalize cfg) ys)"
    using assms by (simp only: drop_append) simp
  finally show ?thesis by (simp only: set_drop_subset)
qed

section \<open>Which windows are idle\<close>

lemma asserted_not_idle:
  assumes "b < 8" "raw_asserted cfg x b" "normalize cfg x \<in> set (window cfg xs)"
  shows "\<not> idle_bit cfg xs b"
  using assms bit_normalize [of b cfg x] by (auto simp: idle_bit_def)

lemma idle_bit_tail:
  assumes "config_ok cfg" "b < 8" "xs \<noteq> []" "raw_asserted cfg (last xs) b"
      "\<forall>y\<in>set ys. \<not> raw_asserted cfg y b"
  shows "idle_bit cfg (xs @ ys) b \<longleftrightarrow> MAX_BUTTON_CHECKS cfg \<le> length ys"
proof (cases "length ys < MAX_BUTTON_CHECKS cfg")
  case True
  then show ?thesis
    using asserted_not_idle [OF assms(2,4) last_in_window [OF assms(3) True]] by simp
next
  case False
  then have "set (window cfg (xs @ ys)) \<subseteq> set (map (normalize cfg) ys)"
    by (intro window_full) simp
  then have "idle_bit cfg (xs @ ys) b"
    using assms(5) bit_normalize [OF assms(2), of cfg] by (auto simp: idle_bit_def)
  then show ?thesis using False by simp
qed

lemma alternating_hd:
  "alternating cfg b want xs \<Longrightarrow> xs \<noteq> [] \<Longrightarrow> raw_asserted cfg (hd xs) b = want"
  by (cases xs) auto

lemma idle_bit_agree:
  assumes "list_all2 (\<lambda>x y. bit x b = bit y b) xs ys"
  shows "idle_bit cfg xs b = idle_bit cfg ys b"
proof -
  let ?R = "\<lambda>x y :: uint8_t. bit x b = bit y b"
  let ?pad = "replicate (MAX_BUTTON_CHECKS cfg) (0xFF :: uint8_t)"
  have len: "length xs = length ys" using assms by (rule list_all2_lengthD)
  have "list_all2 ?R (map (normalize cfg) xs) (map (normalize cfg) ys)"
    using assms by (simp add: list_all2_conv_all_nth normalize_def bit_not_iff)
  moreover have "list_all2 ?R ?pad ?pad" by (simp add: list_all2_conv_all_nth)
  ultimately have "list_all2 ?R (?pad @ map (normalize cfg) xs) (?pad @ map (normalize cfg) ys)"
    by (rule list_all2_appendI [rotated])
  then have "list_all2 ?R (window cfg xs) (window cfg ys)"
    unfolding window_def len by (rule list_all2_dropI)
  then show ?thesis
    unfolding idle_bit_def by (auto simp: list_all2_conv_all_nth all_set_conv_all_nth)
qed

lemma list_all2_butlast_agree:
  assumes "list_all2 R xs ys"
  shows "list_all2 R (butlast xs) (butlast ys)"
proof -
  have "length xs = length ys" using assms by (rule list_all2_lengthD)
  then show ?thesis using assms by (simp add: butlast_conv_take)
qed

section \<open>The claims\<close>

text \<open>
  C1. For every Debouncer state that satisfies the invariant, and every 8-bit sample, one
  call of ButtonProcess returns, and what it returns is the step the specification
  describes: the sample is complemented when the pull-up flag is false, stored in the
  history slot at the write index, the write index advances modulo N, debouncedState is the
  AND of all N history entries (bit by bit: a bit is set iff it is set in every entry), and
  changed is the XOR of the new debouncedState with the one held before the call.
\<close>

theorem C1_ButtonProcess_steps:
  assumes "config_ok cfg" and "Debouncer_inv cfg s"
  shows "ButtonProcess cfg s portStatus = Some (Process_spec cfg s portStatus)
       \<and> state (Process_spec cfg s portStatus) =
           (state s)[unat (index s) :=
              (if USING_BUTTON_PULLUPS cfg then portStatus else NOT portStatus)]
       \<and> unat (index (Process_spec cfg s portStatus)) =
           (unat (index s) + 1) mod MAX_BUTTON_CHECKS cfg
       \<and> (\<forall>b < 8. bit (debouncedState (Process_spec cfg s portStatus)) b \<longleftrightarrow>
             (\<forall>i < MAX_BUTTON_CHECKS cfg. bit (state (Process_spec cfg s portStatus) ! i) b))
       \<and> changed (Process_spec cfg s portStatus) =
           debouncedState (Process_spec cfg s portStatus) XOR debouncedState s"
proof -
  let ?n = "MAX_BUTTON_CHECKS cfg"
  let ?s' = "Process_spec cfg s portStatus"
  have n: "?n \<le> 255" and len: "length (state s) = ?n" and idx: "unat (index s) < ?n"
    using assms by (simp_all add: config_ok_def Debouncer_inv_def)
  have 1: "ButtonProcess cfg s portStatus = Some ?s'"
    by (rule ButtonProcess_step [OF assms])
  have 2: "state ?s' = (state s)[unat (index s) :=
              (if USING_BUTTON_PULLUPS cfg then portStatus else NOT portStatus)]"
    by (simp add: Process_spec_def Let_def normalize_def)
  have 3: "unat (index ?s') = (unat (index s) + 1) mod ?n"
    using index_advance [OF n idx] by (simp add: Process_spec_def Let_def)
  have len': "length (state ?s') = ?n" using len by (simp add: Process_spec_def Let_def)
  have d: "debouncedState ?s' = and_all (state ?s')" by (simp add: Process_spec_def Let_def)
  have 4: "\<forall>b < 8. bit (debouncedState ?s') b \<longleftrightarrow> (\<forall>i < ?n. bit (state ?s' ! i) b)"
    unfolding d bit_and_all using len' by (auto simp: all_set_conv_all_nth)
  have 5: "changed ?s' = debouncedState ?s' XOR debouncedState s"
    by (simp add: Process_spec_def Let_def)
  show ?thesis using 1 2 3 4 5 by blast
qed

theorem C1_ButtonProcess_steps_witness:
  "config_ok \<lparr>MAX_BUTTON_CHECKS = 3, USING_BUTTON_PULLUPS = False\<rparr>
   \<and> Debouncer_inv \<lparr>MAX_BUTTON_CHECKS = 3, USING_BUTTON_PULLUPS = False\<rparr>
        \<lparr>state = [0xFF, 0xFF, 0xFF], index = 2, debouncedState = 0xFF, changed = 0x00\<rparr>
   \<and> ButtonProcess \<lparr>MAX_BUTTON_CHECKS = 3, USING_BUTTON_PULLUPS = False\<rparr>
        \<lparr>state = [0xFF, 0xFF, 0xFF], index = 2, debouncedState = 0xFF, changed = 0x00\<rparr> 0x01
       = Some \<lparr>state = [0xFF, 0xFF, 0xFE], index = 0, debouncedState = 0xFE, changed = 0x01\<rparr>"
proof -
  let ?cfg = "\<lparr>MAX_BUTTON_CHECKS = 3, USING_BUTTON_PULLUPS = False\<rparr>"
  let ?s = "\<lparr>state = [0xFF, 0xFF, 0xFF], index = 2, debouncedState = 0xFF, changed = 0x00\<rparr>"
  have c: "config_ok ?cfg" by (simp add: config_ok_def)
  have i: "Debouncer_inv ?cfg ?s" by (simp add: Debouncer_inv_def)
  have "ButtonProcess ?cfg ?s 0x01 = Some (Process_spec ?cfg ?s 0x01)"
    using C1_ButtonProcess_steps [OF c i, of "0x01"] by (rule conjunct1)
  then show ?thesis using c i
    by (simp add: Process_spec_def normalize_def and_all_def Let_def)
qed

text \<open>
  C2 (as amended). Starting from the freshly constructed idle state, feeding samples with
  a pin asserted (the raw level meaning pressed under the configured polarity) on
  consecutive ButtonProcess calls makes the debounced state for that pin asserted on the
  first call already, and it stays asserted after every further such call; ButtonPressed
  for that pin returns true on that first call only, false on every later call while the
  pin stays asserted.
\<close>

theorem C2_press_on_first_call:
  assumes "config_ok cfg" and "length mem = MAX_BUTTON_CHECKS cfg" and "b < 8"
      and "xs \<noteq> []" and "\<forall>x\<in>set xs. raw_asserted cfg x b"
  shows "pin_pressed_after cfg mem xs b = Some True
       \<and> pressed_after cfg mem xs (2 ^ b) = Some (length xs = 1)"
proof -
  have n: "0 < MAX_BUTTON_CHECKS cfg" using assms(1) by (simp add: config_ok_def)
  have now: "\<not> idle_bit cfg xs b"
    using idle_bit_tail [OF assms(1,3,4), of "[]"] assms(4,5) n by simp
  have before: "idle_bit cfg (butlast xs) b \<longleftrightarrow> length xs = 1"
  proof (cases "butlast xs = []")
    case True
    then have "length xs = 1" using assms(4) by (cases xs) (auto split: if_splits)
    then show ?thesis using True idle_bit_Nil [OF assms(3)] by simp
  next
    case False
    then have "last (butlast xs) \<in> set xs" by (meson in_set_butlastD last_in_set)
    then have "\<not> idle_bit cfg (butlast xs) b"
      using idle_bit_tail [OF assms(1,3) False, of "[]"] assms(5) n by simp
    moreover have "length xs \<noteq> 1" using False by (cases xs) auto
    ultimately show ?thesis by simp
  qed
  show ?thesis
    using now before assms(4)
    by (simp add: pin_pressed_after_bit [OF assms(1,2,3)] pressed_after_bit [OF assms(1,2,3)])
qed

theorem C2_press_on_first_call_witness:
  "config_ok default_config
   \<and> length (replicate 10 (0::uint8_t)) = MAX_BUTTON_CHECKS default_config
   \<and> (0::nat) < 8
   \<and> raw_asserted default_config 0xFE 0
   \<and> pin_pressed_after default_config (replicate 10 0) [0xFE, 0xFE] 0 = Some True
   \<and> pressed_after default_config (replicate 10 0) [0xFE, 0xFE] (2 ^ 0) = Some False"
proof -
  have c: "config_ok default_config" by (simp add: config_ok_def default_config_def)
  have l: "length (replicate 10 (0::uint8_t)) = MAX_BUTTON_CHECKS default_config"
    by (simp add: default_config_def)
  have a: "raw_asserted default_config 0xFE 0" by (simp add: raw_asserted_def default_config_def)
  show ?thesis
    using c l a C2_press_on_first_call [OF c l, of 0 "[0xFE, 0xFE]"] by simp
qed

text \<open>
  The claim as stated fails for the default depth of 10: the pin reads pressed and
  ButtonPressed is true after the first asserted sample, and ButtonPressed is false after
  the tenth.
\<close>

theorem C2_confirmed_press_counterexample:
  "pin_pressed_after default_config (replicate 10 0) [0xFE] 0 = Some True
   \<and> pressed_after default_config (replicate 10 0) [0xFE] (2 ^ 0) = Some True
   \<and> pressed_after default_config (replicate 10 0) (replicate 10 0xFE) (2 ^ 0) = Some False"
proof -
  have c: "config_ok default_config" by (simp add: config_ok_def default_config_def)
  have l: "length (replicate 10 (0::uint8_t)) = MAX_BUTTON_CHECKS default_config"
    by (simp add: default_config_def)
  have i0: "idle_bit default_config [] 0"
    by (simp add: idle_bit_def window_def default_config_def)
  have i1: "\<not> idle_bit default_config [0xFE] 0"
    by (simp add: idle_bit_def window_def default_config_def normalize_def)
  have i9: "\<not> idle_bit default_config (replicate 9 0xFE) 0"
    by (simp add: idle_bit_def window_def default_config_def normalize_def)
  have i10: "\<not> idle_bit default_config (replicate 10 0xFE) 0"
    by (simp add: idle_bit_def window_def default_config_def normalize_def)
  have b: "butlast (replicate 10 (0xFE::uint8_t)) = replicate 9 0xFE"
    by (simp add: butlast_conv_take)
  have z: "(0::nat) < 8" by simp
  show ?thesis
    using i0 i1 i9 i10 b pin_pressed_after_bit [OF c l z, of "[0xFE]"]
      pressed_after_bit [OF c l z, of "[0xFE]"]
      pressed_after_bit [OF c l z, of "replicate 10 0xFE"]
    by simp
qed

text \<open>
  C3 (as amended). Once a pin is pressed (its latest sample asserted), deasserted samples
  flip that pin's debounced state to not-pressed on the N-th consecutive deasserted call,
  N the history depth, and not before; ButtonReleased for that pin returns true exactly on
  that N-th call, false on the deasserted calls before and after it.
\<close>

theorem C3_release_on_Nth_call:
  assumes "config_ok cfg" and "length mem = MAX_BUTTON_CHECKS cfg" and "b < 8"
      and "xs \<noteq> []" and "raw_asserted cfg (last xs) b"
      and "ys \<noteq> []" and "\<forall>y\<in>set ys. \<not> raw_asserted cfg y b"
  shows "pin_pressed_after cfg mem (xs @ ys) b = Some (length ys < MAX_BUTTON_CHECKS cfg)
       \<and> released_after cfg mem (xs @ ys) (2 ^ b) = Some (length ys = MAX_BUTTON_CHECKS cfg)"
proof -
  have now: "idle_bit cfg (xs @ ys) b \<longleftrightarrow> MAX_BUTTON_CHECKS cfg \<le> length ys"
    by (rule idle_bit_tail [OF assms(1,3,4,5,7)])
  have "\<forall>y\<in>set (butlast ys). \<not> raw_asserted cfg y b"
    using assms(7) by (auto dest: in_set_butlastD)
  then have "idle_bit cfg (xs @ butlast ys) b \<longleftrightarrow> MAX_BUTTON_CHECKS cfg \<le> length (butlast ys)"
    by (rule idle_bit_tail [OF assms(1,3,4,5)])
  moreover have "butlast (xs @ ys) = xs @ butlast ys"
    using assms(6) by (simp add: butlast_append)
  ultimately have before:
    "idle_bit cfg (butlast (xs @ ys)) b \<longleftrightarrow> MAX_BUTTON_CHECKS cfg \<le> length ys - 1"
    by simp
  have "length ys \<noteq> 0" using assms(6) by simp
  then have edge: "(\<not> MAX_BUTTON_CHECKS cfg \<le> length ys - 1 \<and> MAX_BUTTON_CHECKS cfg \<le> length ys)
          \<longleftrightarrow> length ys = MAX_BUTTON_CHECKS cfg" by arith
  show ?thesis
    using now before edge assms(4)
    by (simp add: pin_pressed_after_bit [OF assms(1,2,3)] released_after_bit [OF assms(1,2,3)]
                  not_le)
qed

theorem C3_release_on_Nth_call_witness:
  "config_ok default_config
   \<and> length (replicate 10 (0::uint8_t)) = MAX_BUTTON_CHECKS default_config
   \<and> (0::nat) < 8
   \<and> raw_asserted default_config (last [0xFE]) 0
   \<and> \<not> raw_asserted default_config 0xFF 0
   \<and> pin_pressed_after default_config (replicate 10 0) ([0xFE] @ replicate 10 0xFF) 0 = Some False
   \<and> released_after default_config (replicate 10 0) ([0xFE] @ replicate 10 0xFF) (2 ^ 0) = Some True"
proof -
  have c: "config_ok default_config" by (simp add: config_ok_def default_config_def)
  have l: "length (replicate 10 (0::uint8_t)) = MAX_BUTTON_CHECKS default_config"
    by (simp add: default_config_def)
  have a: "raw_asserted default_config (last [0xFE]) 0"
    by (simp add: raw_asserted_def default_config_def)
  have d: "\<not> raw_asserted default_config 0xFF 0"
    by (simp add: raw_asserted_def default_config_def)
  show ?thesis
    using c l a d C3_release_on_Nth_call [OF c l, of 0 "[0xFE]" "replicate 10 0xFF"]
    by (simp add: default_config_def)
qed

text \<open>
  The claim as stated fails for the default depth of 10: after ten asserted samples, one
  deasserted sample leaves the pin pressed and ButtonReleased false.
\<close>

theorem C3_instant_release_counterexample:
  "pin_pressed_after default_config (replicate 10 0) (replicate 10 0xFE) 0 = Some True
   \<and> pin_pressed_after default_config (replicate 10 0) (replicate 10 0xFE @ [0xFF]) 0 = Some True
   \<and> released_after default_config (replicate 10 0) (replicate 10 0xFE @ [0xFF]) (2 ^ 0) = Some False"
proof -
  have c: "config_ok default_config" by (simp add: config_ok_def default_config_def)
  have l: "length (replicate 10 (0::uint8_t)) = MAX_BUTTON_CHECKS default_config"
    by (simp add: default_config_def)
  have i10: "\<not> idle_bit default_config (replicate 10 0xFE) 0"
    by (simp add: idle_bit_def window_def default_config_def normalize_def)
  have i11: "\<not> idle_bit default_config (replicate 10 0xFE @ [0xFF]) 0"
    by (simp add: idle_bit_def window_def default_config_def normalize_def)
  have z: "(0::nat) < 8" by simp
  show ?thesis
    using i10 i11 pin_pressed_after_bit [OF c l z, of "replicate 10 0xFE"]
      pin_pressed_after_bit [OF c l z, of "replicate 10 0xFE @ [0xFF]"]
      released_after_bit [OF c l z, of "replicate 10 0xFE @ [0xFF]"]
    by simp
qed

text \<open>
  C4 (as amended). Starting from the freshly constructed idle state, feeding an alternating
  raw sequence for a pin (asserted, deasserted, asserted, ...) for fewer than N calls flips
  debouncedState for that pin once, to pressed, on the first call, and never flips it back:
  after every call the pin reads pressed, ButtonPressed is true after the first call only
  and ButtonReleased is never true.
\<close>

theorem C4_bounce_never_releases:
  assumes "config_ok cfg" and "length mem = MAX_BUTTON_CHECKS cfg" and "b < 8"
      and "xs \<noteq> []" and "alternating cfg b True xs" and "length xs < MAX_BUTTON_CHECKS cfg"
  shows "pin_pressed_after cfg mem xs b = Some True
       \<and> pressed_after cfg mem xs (2 ^ b) = Some (length xs = 1)
       \<and> released_after cfg mem xs (2 ^ b) = Some False"
proof -
  have hd: "raw_asserted cfg (hd xs) b" using alternating_hd [OF assms(5,4)] by simp
  have now: "\<not> idle_bit cfg xs b"
    using asserted_not_idle [OF assms(3) hd hd_in_window [OF assms(4)]] assms(6) by simp
  have before: "idle_bit cfg (butlast xs) b \<longleftrightarrow> length xs = 1"
  proof (cases "butlast xs = []")
    case True
    then have "length xs = 1" using assms(4) by (cases xs) (auto split: if_splits)
    then show ?thesis using True idle_bit_Nil [OF assms(3)] by simp
  next
    case False
    then have "hd (butlast xs) = hd xs" by (cases xs) (auto split: if_splits)
    moreover have "length (butlast xs) \<le> MAX_BUTTON_CHECKS cfg" using assms(6) by simp
    ultimately have "\<not> idle_bit cfg (butlast xs) b"
      using asserted_not_idle [OF assms(3), of cfg "hd xs" "butlast xs"] hd
            hd_in_window [OF False, of cfg] by simp
    moreover have "length xs \<noteq> 1" using False by (cases xs) auto
    ultimately show ?thesis by simp
  qed
  show ?thesis
    using now before assms(4)
    by (simp add: pin_pressed_after_bit [OF assms(1,2,3)] pressed_after_bit [OF assms(1,2,3)]
                  released_after_bit [OF assms(1,2,3)])
qed

theorem C4_bounce_never_releases_witness:
  "config_ok default_config
   \<and> length (replicate 10 (0::uint8_t)) = MAX_BUTTON_CHECKS default_config
   \<and> (0::nat) < 8
   \<and> alternating default_config 0 True [0xFE, 0xFF, 0xFE]
   \<and> length [0xFE, 0xFF, 0xFE :: uint8_t] < MAX_BUTTON_CHECKS default_config
   \<and> pin_pressed_after default_config (replicate 10 0) [0xFE, 0xFF, 0xFE] 0 = Some True
   \<and> pressed_after default_config (replicate 10 0) [0xFE, 0xFF, 0xFE] (2 ^ 0) = Some False
   \<and> released_after default_config (replicate 10 0) [0xFE, 0xFF, 0xFE] (2 ^ 0) = Some False"
proof -
  have c: "config_ok default_config" by (simp add: config_ok_def default_config_def)
  have l: "length (replicate 10 (0::uint8_t)) = MAX_BUTTON_CHECKS default_config"
    by (simp add: default_config_def)
  have a: "alternating default_config 0 True [0xFE, 0xFF, 0xFE]"
    by (simp add: raw_asserted_def default_config_def)
  have n: "length [0xFE, 0xFF, 0xFE :: uint8_t] < MAX_BUTTON_CHECKS default_config"
    by (simp add: default_config_def)
  show ?thesis
    using c l a n C4_bounce_never_releases [OF c l, of 0 "[0xFE, 0xFF, 0xFE]"] by simp
qed

text \<open>
  The claim as stated fails for the default depth of 10: the getter returns 0xFF after
  construction and 0xFE after the first sample of an alternating sequence on pin 0.
\<close>

theorem C4_debounce_suppression_counterexample:
  "alternating default_config 0 True [0xFE, 0xFF, 0xFE]
   \<and> length [0xFE, 0xFF, 0xFE :: uint8_t] < MAX_BUTTON_CHECKS default_config
   \<and> state_after default_config (replicate 10 0) [] = Some 0xFF
   \<and> state_after default_config (replicate 10 0) [0xFE] = Some 0xFE
   \<and> state_after default_config (replicate 10 0) [0xFE, 0xFF] = Some 0xFE
   \<and> state_after default_config (replicate 10 0) [0xFE, 0xFF, 0xFE] = Some 0xFE"
proof -
  have c: "config_ok default_config" by (simp add: config_ok_def default_config_def)
  have l: "length (replicate 10 (0::uint8_t)) = MAX_BUTTON_CHECKS default_config"
    by (simp add: default_config_def)
  have a: "alternating default_config 0 True [0xFE, 0xFF, 0xFE]"
    by (simp add: raw_asserted_def default_config_def)
  have n: "length [0xFE, 0xFF, 0xFE :: uint8_t] < MAX_BUTTON_CHECKS default_config"
    by (simp add: default_config_def)
  have p: "USING_BUTTON_PULLUPS default_config" by (simp add: default_config_def)
  have w0: "and_all (window default_config []) = 0xFF"
    by (simp add: window_def default_config_def and_all_def eval_nat_numeral)
  have w1: "and_all (window default_config [0xFE]) = 0xFE"
    by (simp add: window_def default_config_def normalize_def and_all_def eval_nat_numeral)
  have w2: "and_all (window default_config [0xFE, 0xFF]) = 0xFE"
    by (simp add: window_def default_config_def normalize_def and_all_def eval_nat_numeral)
  have w3: "and_all (window default_config [0xFE, 0xFF, 0xFE]) = 0xFE"
    by (simp add: window_def default_config_def normalize_def and_all_def eval_nat_numeral)
  show ?thesis
    using a n p w0 w1 w2 w3 by (simp add: state_after_value [OF c l])
qed

text \<open>
  C5 (as amended). ButtonDebouncedStateGet returns debouncedState unchanged when pull-ups
  are in use, and its bitwise complement when they are not. In both cases pin \<open>b\<close> of the
  returned mask is at the raw pressed level of the configured polarity exactly when bit
  \<open>b\<close> of debouncedState is 0: with pull-ups a returned 0 bit means pressed.
\<close>

theorem C5_state_get_polarity:
  "fst (ButtonDebouncedStateGet cfg s) =
     (if USING_BUTTON_PULLUPS cfg then debouncedState s else NOT (debouncedState s))
   \<and> (b < 8 \<longrightarrow>
        raw_asserted cfg (fst (ButtonDebouncedStateGet cfg s)) b = (\<not> bit (debouncedState s) b))"
  by (simp add: ButtonDebouncedStateGet_def raw_asserted_def bit_not_iff)

theorem C5_state_get_polarity_witness:
  "(0::nat) < 8
   \<and> fst (ButtonDebouncedStateGet default_config
        \<lparr>state = [], index = 0, debouncedState = 0xFE, changed = 0x00\<rparr>) = 0xFE
   \<and> raw_asserted default_config (fst (ButtonDebouncedStateGet default_config
        \<lparr>state = [], index = 0, debouncedState = 0xFE, changed = 0x00\<rparr>)) 0"
  using C5_state_get_polarity [of default_config
     "\<lparr>state = [], index = 0, debouncedState = 0xFE, changed = 0x00\<rparr>" 0]
  by (auto simp: default_config_def)

text \<open>
  The claim as stated fails: with pull-ups in use the getter does not return the complement
  of debouncedState.
\<close>

theorem C5_state_get_counterexample:
  "USING_BUTTON_PULLUPS default_config
   \<and> fst (ButtonDebouncedStateGet default_config
        \<lparr>state = [0xFF, 0xFF, 0xFF, 0xFF, 0xFF, 0xFF, 0xFF, 0xFF, 0xFF, 0xFF],
         index = 0, debouncedState = 0xFF, changed = 0x00\<rparr>) = 0xFF
   \<and> NOT (debouncedState
        \<lparr>state = [0xFF, 0xFF, 0xFF, 0xFF, 0xFF, 0xFF, 0xFF, 0xFF, 0xFF, 0xFF],
         index = 0, debouncedState = 0xFF, changed = 0x00\<rparr>) = 0x00"
  by (simp add: ButtonDebouncedStateGet_def default_config_def)

text \<open>
  C6 (as amended). Immediately after construction, before any ButtonProcess call, the
  getter returns the idle value in the raw electrical sense of the configured polarity:
  0xFF when pull-ups are in use (a 1 bit is a pin that is not pressed), 0x00 when they are
  not; so every pin is at the raw level of a button that is not pressed. ButtonPressed
  and ButtonReleased return false for every 8-bit mask.
\<close>

theorem C6_idle_after_construction:
  assumes "config_ok cfg" and "length mem = MAX_BUTTON_CHECKS cfg"
  shows "state_after cfg mem [] = Some (if USING_BUTTON_PULLUPS cfg then 0xFF else 0x00)
       \<and> (\<forall>b < 8. pin_pressed_after cfg mem [] b = Some False)
       \<and> pressed_after cfg mem [] GPIOButtonPin = Some False
       \<and> released_after cfg mem [] GPIOButtonPin = Some False"
proof -
  have r: "run cfg mem [] = Some \<lparr>state = replicate (MAX_BUTTON_CHECKS cfg) 0xFF, index = 0,
               debouncedState = 0xFF, changed = 0\<rparr>"
    using ctor_Some [OF assms] by (simp add: run_def)
  have 1: "state_after cfg mem [] = Some (if USING_BUTTON_PULLUPS cfg then 0xFF else 0x00)"
    using r by (simp add: state_after_def ButtonDebouncedStateGet_def)
  have 2: "\<forall>b < 8. pin_pressed_after cfg mem [] b = Some False"
    using pin_pressed_after_bit [OF assms] idle_bit_Nil by simp
  have 3: "pressed_after cfg mem [] GPIOButtonPin = Some False"
    using r by (simp add: pressed_after_def ButtonPressed_def)
  have 4: "released_after cfg mem [] GPIOButtonPin = Some False"
    using r by (simp add: released_after_def ButtonReleased_def)
  show ?thesis using 1 2 3 4 by blast
qed

theorem C6_idle_after_construction_witness:
  "config_ok default_config
   \<and> length [0, 0, 0, 0, 0, 0, 0, 0, 0, 0 :: uint8_t] = MAX_BUTTON_CHECKS default_config
   \<and> state_after default_config [0, 0, 0, 0, 0, 0, 0, 0, 0, 0] [] = Some 0xFF
   \<and> pin_pressed_after default_config [0, 0, 0, 0, 0, 0, 0, 0, 0, 0] [] 3 = Some False
   \<and> pressed_after default_config [0, 0, 0, 0, 0, 0, 0, 0, 0, 0] [] 0xFF = Some False
   \<and> released_after default_config [0, 0, 0, 0, 0, 0, 0, 0, 0, 0] [] 0xFF = Some False"
proof -
  have c: "config_ok default_config" by (simp add: config_ok_def default_config_def)
  have l: "length [0, 0, 0, 0, 0, 0, 0, 0, 0, 0 :: uint8_t] = MAX_BUTTON_CHECKS default_config"
    by (simp add: default_config_def)
  show ?thesis
    using c l C6_idle_after_construction [OF c l, of "0xFF"]
    by (simp add: default_config_def)
qed

text \<open>
  The claim as stated fails under the contract ``a 1 bit means pressed'': with the default
  configuration (pull-ups in use) the getter returns 0xFF after construction, every bit
  set, not 0x00.
\<close>

theorem C6_idle_sentinel_counterexample:
  "USING_BUTTON_PULLUPS default_config
   \<and> state_after default_config (replicate 10 0) [] = Some 0xFF
   \<and> (0xFF :: uint8_t) \<noteq> 0x00
   \<and> bit (0xFF :: uint8_t) (0::nat) \<and> bit (0xFF :: uint8_t) (1::nat)
   \<and> bit (0xFF :: uint8_t) (2::nat) \<and> bit (0xFF :: uint8_t) (3::nat)
   \<and> bit (0xFF :: uint8_t) (4::nat) \<and> bit (0xFF :: uint8_t) (5::nat)
   \<and> bit (0xFF :: uint8_t) (6::nat) \<and> bit (0xFF :: uint8_t) (7::nat)"
proof -
  have c: "config_ok default_config" by (simp add: config_ok_def default_config_def)
  have l: "length (replicate 10 (0::uint8_t)) = MAX_BUTTON_CHECKS default_config"
    by (simp add: default_config_def)
  have p: "USING_BUTTON_PULLUPS default_config" by (simp add: default_config_def)
  have w: "and_all (window default_config []) = 0xFF"
    by (simp add: window_def default_config_def and_all_def eval_nat_numeral)
  have s: "state_after default_config (replicate 10 0) [] = Some 0xFF"
    using p w by (simp add: state_after_value [OF c l])
  have n: "(0xFF :: uint8_t) \<noteq> 0x00" by simp
  have b: "bit (0xFF :: uint8_t) (0::nat)" "bit (0xFF :: uint8_t) (1::nat)"
    "bit (0xFF :: uint8_t) (2::nat)" "bit (0xFF :: uint8_t) (3::nat)"
    "bit (0xFF :: uint8_t) (4::nat)" "bit (0xFF :: uint8_t) (5::nat)"
    "bit (0xFF :: uint8_t) (6::nat)" "bit (0xFF :: uint8_t) (7::nat)"
    by (simp_all only: bit_0xFF)
  show ?thesis using p s n b by blast
qed

text \<open>
  C7. For every pin B and any two sample sequences of equal length that agree on bit B
  (whatever they do on any other pin A), processing either from the constructed state
  gives, after every step \<open>k\<close>, the same debounced reading of pin B and the same answers of
  ButtonPressed and ButtonReleased for pin B; all of them are defined.
\<close>

theorem C7_pins_independent:
  assumes "config_ok cfg" and "length mem = MAX_BUTTON_CHECKS cfg" and "b < 8"
      and "list_all2 (\<lambda>x y. bit x b = bit y b) xs ys" and "k \<le> length xs"
  shows "pin_pressed_after cfg mem (take k xs) b = pin_pressed_after cfg mem (take k ys) b
       \<and> pressed_after cfg mem (take k xs) (2 ^ b) = pressed_after cfg mem (take k ys) (2 ^ b)
       \<and> released_after cfg mem (take k xs) (2 ^ b) = released_after cfg mem (take k ys) (2 ^ b)
       \<and> pin_pressed_after cfg mem (take k xs) b \<noteq> None
       \<and> pressed_after cfg mem (take k xs) (2 ^ b) \<noteq> None
       \<and> released_after cfg mem (take k xs) (2 ^ b) \<noteq> None"
proof -
  have t: "list_all2 (\<lambda>x y. bit x b = bit y b) (take k xs) (take k ys)"
    using assms(4) by (rule list_all2_takeI)
  have now: "idle_bit cfg (take k xs) b = idle_bit cfg (take k ys) b"
    using t by (rule idle_bit_agree)
  have before: "idle_bit cfg (butlast (take k xs)) b = idle_bit cfg (butlast (take k ys)) b"
    using list_all2_butlast_agree [OF t] by (rule idle_bit_agree)
  have "length (take k xs) = length (take k ys)" using t by (rule list_all2_lengthD)
  then have e: "take k xs = [] \<longleftrightarrow> take k ys = []" by (metis length_0_conv)
  show ?thesis
    using now before e
    by (simp add: pin_pressed_after_bit [OF assms(1,2,3)] pressed_after_bit [OF assms(1,2,3)]
                  released_after_bit [OF assms(1,2,3)])
qed

theorem C7_pins_independent_witness:
  "config_ok default_config
   \<and> length (replicate 10 (0::uint8_t)) = MAX_BUTTON_CHECKS default_config
   \<and> (1::nat) < 8
   \<and> list_all2 (\<lambda>x y. bit x (1::nat) = bit y (1::nat))
         [0xFD, 0xFC, 0xFF :: uint8_t] [0xFC, 0xFD, 0xFE :: uint8_t]
   \<and> (2::nat) \<le> length [0xFD, 0xFC, 0xFF :: uint8_t]
   \<and> pin_pressed_after default_config (replicate 10 0) (take 2 [0xFD, 0xFC, 0xFF]) 1
       = pin_pressed_after default_config (replicate 10 0) (take 2 [0xFC, 0xFD, 0xFE]) 1
   \<and> pressed_after default_config (replicate 10 0) (take 2 [0xFD, 0xFC, 0xFF]) (2 ^ 1)
       = pressed_after default_config (replicate 10 0) (take 2 [0xFC, 0xFD, 0xFE]) (2 ^ 1)
   \<and> released_after default_config (replicate 10 0) (take 2 [0xFD, 0xFC, 0xFF]) (2 ^ 1)
       = released_after default_config (replicate 10 0) (take 2 [0xFC, 0xFD, 0xFE]) (2 ^ 1)"
proof -
  have c: "config_ok default_config" by (simp add: config_ok_def default_config_def)
  have l: "length (replicate 10 (0::uint8_t)) = MAX_BUTTON_CHECKS default_config"
    by (simp add: default_config_def)
  have a: "list_all2 (\<lambda>x y. bit x (1::nat) = bit y (1::nat))
             [0xFD, 0xFC, 0xFF :: uint8_t] [0xFC, 0xFD, 0xFE :: uint8_t]"
    by (simp add: bit_iff_odd drop_bit_eq_div)
  have k: "(2::nat) \<le> length [0xFD, 0xFC, 0xFF :: uint8_t]" by simp
  have b: "(1::nat) < 8" by simp
  show ?thesis
    using c l a C7_pins_independent [OF c l b a k] by simp
qed

text \<open>
  C8. ButtonPressed, ButtonReleased and ButtonDebouncedStateGet leave every field of the
  Debouncer as it was; so after any list of accessor calls the object is the same, and any
  accessor gives the answer it gives without them.
\<close>

theorem C8_accessors_do_not_mutate:
  "snd (ButtonPressed s pin) = s
   \<and> snd (ButtonReleased s pin) = s
   \<and> snd (ButtonDebouncedStateGet cfg s) = s
   \<and> ask_all cfg s qs = s
   \<and> fst (ask cfg (ask_all cfg s qs) q) = fst (ask cfg s q)"
proof -
  have 1: "snd (ButtonPressed s pin) = s" for s pin by (simp add: ButtonPressed_def)
  have 2: "snd (ButtonReleased s pin) = s" for s pin by (simp add: ButtonReleased_def)
  have 3: "snd (ButtonDebouncedStateGet cfg s) = s" for s
    by (simp add: ButtonDebouncedStateGet_def)
  have a: "snd (ask cfg s q) = s" for s q by (cases q) (simp_all add: 1 2 3)
  have 4: "ask_all cfg s qs = s" by (induction qs) (simp_all add: a)
  show ?thesis using 1 2 3 4 by simp
qed

text \<open>
  C9. For a history depth in the documented range, the invariant (N history entries and
  index below N) holds after construction and is preserved by every ButtonProcess call:
  the constructor and every call return a state (no access outside the array, no endless
  loop), and the state satisfies the invariant again, also after any list of samples.
\<close>

theorem C9_index_in_bounds:
  assumes "config_ok cfg" and "length mem = MAX_BUTTON_CHECKS cfg"
  shows "(\<exists>s0. Debouncer_ctor cfg mem = Some s0 \<and> Debouncer_inv cfg s0)
       \<and> (Debouncer_inv cfg s \<longrightarrow>
            unat (index s) < length (state s)
            \<and> (\<exists>s'. ButtonProcess cfg s p = Some s' \<and> Debouncer_inv cfg s'))
       \<and> (\<exists>sk. run cfg mem xs = Some sk \<and> Debouncer_inv cfg sk
                \<and> unat (index sk) < MAX_BUTTON_CHECKS cfg)"
proof -
  have 1: "\<exists>s0. Debouncer_ctor cfg mem = Some s0 \<and> Debouncer_inv cfg s0"
    using ctor_Some [OF assms] assms by (simp add: Debouncer_inv_def config_ok_def)
  have 2: "Debouncer_inv cfg s \<longrightarrow> unat (index s) < length (state s)
            \<and> (\<exists>s'. ButtonProcess cfg s p = Some s' \<and> Debouncer_inv cfg s')"
    using ButtonProcess_step [OF assms(1)] Process_spec_inv [OF assms(1)]
    by (auto simp: Debouncer_inv_def)
  have 3: "\<exists>sk. run cfg mem xs = Some sk \<and> Debouncer_inv cfg sk
                \<and> unat (index sk) < MAX_BUTTON_CHECKS cfg"
    using run_trace [OF assms, of xs] by (auto simp: Debouncer_inv_def)
  show ?thesis using 1 2 3 by blast
qed

theorem C9_index_in_bounds_witness:
  "config_ok \<lparr>MAX_BUTTON_CHECKS = 3, USING_BUTTON_PULLUPS = True\<rparr>
   \<and> length [0, 0, 0 :: uint8_t] = MAX_BUTTON_CHECKS \<lparr>MAX_BUTTON_CHECKS = 3, USING_BUTTON_PULLUPS = True\<rparr>
   \<and> Debouncer_inv \<lparr>MAX_BUTTON_CHECKS = 3, USING_BUTTON_PULLUPS = True\<rparr>
        \<lparr>state = [0xFF, 0xFF, 0xFF], index = 2, debouncedState = 0xFF, changed = 0x00\<rparr>
   \<and> ButtonProcess \<lparr>MAX_BUTTON_CHECKS = 3, USING_BUTTON_PULLUPS = True\<rparr>
        \<lparr>state = [0xFF, 0xFF, 0xFF], index = 2, debouncedState = 0xFF, changed = 0x00\<rparr> 0xFE
       \<noteq> None
   \<and> run \<lparr>MAX_BUTTON_CHECKS = 3, USING_BUTTON_PULLUPS = True\<rparr> [0, 0, 0] [0xFE, 0xFF, 0xFE, 0xFE]
       \<noteq> None"
proof -
  let ?cfg = "\<lparr>MAX_BUTTON_CHECKS = 3, USING_BUTTON_PULLUPS = True\<rparr>"
  let ?s = "\<lparr>state = [0xFF, 0xFF, 0xFF], index = 2, debouncedState = 0xFF, changed = 0x00\<rparr>"
  have c: "config_ok ?cfg" by (simp add: config_ok_def)
  have l: "length [0, 0, 0 :: uint8_t] = MAX_BUTTON_CHECKS ?cfg" by simp
  have i: "Debouncer_inv ?cfg ?s" by (simp add: Debouncer_inv_def)
  show ?thesis
    using c l i C9_index_in_bounds [OF c l, of ?s "0xFE" "[0xFE, 0xFF, 0xFE, 0xFE]"]
    by auto
qed

text \<open>
  C10. In every state, hence after any sequence of operations, ButtonPressed and
  ButtonReleased are never both true for a single-pin mask: the masks
  \<^verbatim>\<open>changed & ~debouncedState\<close> and \<^verbatim>\<open>changed & debouncedState\<close> have no bit in common.
\<close>

theorem C10_pressed_released_exclusive:
  "(changed s AND NOT (debouncedState s)) AND (changed s AND debouncedState s) = 0
   \<and> \<not> (fst (ButtonPressed s (2 ^ b)) \<and> fst (ButtonReleased s (2 ^ b)))"
proof -
  have 1: "(changed s AND NOT (debouncedState s)) AND (changed s AND debouncedState s) = 0"
    by (rule bit_eqI) (simp add: bit_and_iff bit_not_iff)
  have "fst (ButtonPressed s (2 ^ b)) \<Longrightarrow> \<not> bit (debouncedState s) b"
    using mask_test [of "changed s AND NOT (debouncedState s)" b]
    by (simp add: ButtonPressed_def bit_and_iff bit_not_iff split: if_splits)
  moreover have "fst (ButtonReleased s (2 ^ b)) \<Longrightarrow> bit (debouncedState s) b"
    using mask_test [of "changed s AND debouncedState s" b]
    by (simp add: ButtonReleased_def bit_and_iff split: if_splits)
  ultimately show ?thesis using 1 by blast
qed

end
